theory Spec2Isabelle
  imports Main
begin

section \<open>Values\<close>

text \<open>
  The engine (\<^verbatim>\<open>production/upsell-engine-manager.js\<close>) works on plain JavaScript
  objects read from the store. Numbers are modelled as \<^typ>\<open>int\<close> (prices in minor units,
  seconds, priorities): the claims verified here are about comparisons and defaulting,
  not about floating-point rounding. A property that an object may lack is an option;
  \<open>None\<close> is JavaScript's \<^verbatim>\<open>undefined\<close>. Strings are ASCII.
\<close>

text \<open>\<^verbatim>\<open>a || b\<close> on optional numbers: \<^verbatim>\<open>undefined\<close> and \<^verbatim>\<open>0\<close> are falsy.\<close>

definition truthy :: "int option \<Rightarrow> bool" where
  "truthy a = (case a of None \<Rightarrow> False | Some x \<Rightarrow> x \<noteq> 0)"

definition js_or :: "int option \<Rightarrow> int option \<Rightarrow> int option" where
  "js_or a b = (if truthy a then a else b)"

text \<open>\<^verbatim>\<open>a || 0\<close>.\<close>

definition or_zero :: "int option \<Rightarrow> int" where
  "or_zero a = (case js_or a (Some 0) of None \<Rightarrow> 0 | Some x \<Rightarrow> x)"

text \<open>
  Relational operators with a possibly missing right operand: \<^verbatim>\<open>undefined\<close> converts to
  \<^verbatim>\<open>NaN\<close>, and every comparison with \<^verbatim>\<open>NaN\<close> is false. \<^verbatim>\<open>===\<close> against
  \<^verbatim>\<open>undefined\<close> is false for a number.
\<close>

definition js_gt :: "int \<Rightarrow> int option \<Rightarrow> bool" where
  "js_gt x b = (case b of None \<Rightarrow> False | Some y \<Rightarrow> x > y)"

definition js_lt :: "int \<Rightarrow> int option \<Rightarrow> bool" where
  "js_lt x b = (case b of None \<Rightarrow> False | Some y \<Rightarrow> x < y)"

definition js_ge :: "int \<Rightarrow> int option \<Rightarrow> bool" where
  "js_ge x b = (case b of None \<Rightarrow> False | Some y \<Rightarrow> x \<ge> y)"

definition js_le :: "int \<Rightarrow> int option \<Rightarrow> bool" where
  "js_le x b = (case b of None \<Rightarrow> False | Some y \<Rightarrow> x \<le> y)"

definition js_strict_eq :: "int \<Rightarrow> int option \<Rightarrow> bool" where
  "js_strict_eq x b = (case b of None \<Rightarrow> False | Some y \<Rightarrow> x = y)"

section \<open>Data model\<close>

record cart_item =
  product_id :: string
  title :: string
  price :: int
  quantity :: int

record time_context =
  timeOnSite :: "int option"
  activeTimeOnSite :: "int option"
  currentPage :: "string option"

text \<open>The \<^verbatim>\<open>trigger_conditions\<close> object of a rule: every property is optional.\<close>

record conditions =
  category :: "string option"
  category_operator :: "string option"
  cart_value_operator :: "string option"
  cart_value :: "int option"
  cart_value_min :: "int option"
  cart_value_max :: "int option"
  time_on_site_min :: "int option"
  time_on_site_max :: "int option"
  active_time_on_site_min :: "int option"

section \<open>Condition evaluators\<close>

subsection \<open>Category extraction\<close>

text \<open>\<^verbatim>\<open>String.prototype.includes\<close>: the keyword occurs as a contiguous substring.\<close>

fun startsWith :: "string \<Rightarrow> string \<Rightarrow> bool" where
  "startsWith s [] = True"
| "startsWith [] (k # ks) = False"
| "startsWith (c # cs) (k # ks) = (c = k \<and> startsWith cs ks)"

fun includes_str :: "string \<Rightarrow> string \<Rightarrow> bool" where
  "includes_str [] k = (k = [])"
| "includes_str (c # cs) k = (startsWith (c # cs) k \<or> includes_str cs k)"

text \<open>\<^verbatim>\<open>toLowerCase\<close> on ASCII text: the letters A to Z move to a to z.\<close>

definition lower_char :: "char \<Rightarrow> char" where
  "lower_char c =
     (let n = (of_char c :: nat) in if 65 \<le> n \<and> n \<le> 90 then char_of (n + 32) else c)"

definition toLowerCase :: "string \<Rightarrow> string" where
  "toLowerCase s = map lower_char s"

text \<open>The keyword table of \<^verbatim>\<open>extractCategory\<close>, in the insertion order that
  \<^verbatim>\<open>Object.entries\<close> enumerates.\<close>

definition categories :: "(string \<times> string list) list" where
  "categories =
     [(''coffee'', [''coffee'', ''mug'', ''beans'', ''grinder'']),
      (''electronics'', [''headphones'', ''speaker'', ''wireless'', ''bluetooth'']),
      (''kitchenware'', [''mug'', ''grinder'', ''kitchen'']),
      (''food'', [''beans'', ''organic''])]"

fun first_category :: "(string \<times> string list) list \<Rightarrow> string \<Rightarrow> string" where
  "first_category [] lowerTitle = ''general''"
| "first_category ((cat, keywords) # rest) lowerTitle =
     (if list_ex (\<lambda>keyword. includes_str lowerTitle keyword) keywords then cat
      else first_category rest lowerTitle)"

definition extractCategory :: "string \<Rightarrow> string" where
  "extractCategory t = first_category categories (toLowerCase t)"

subsection \<open>The three evaluators\<close>

text \<open>
  \<^verbatim>\<open>const { category, category_operator = 'contains' } = conditions;\<close>
  \<^verbatim>\<open>if (!category) return false;\<close> The empty string is falsy.
\<close>

definition evaluateCategoryConditions :: "conditions \<Rightarrow> cart_item list \<Rightarrow> bool" where
  "evaluateCategoryConditions cs cartItems =
     (let operator = (case category_operator cs of None \<Rightarrow> ''contains'' | Some s \<Rightarrow> s) in
      case category cs of
        None \<Rightarrow> False
      | Some cat \<Rightarrow>
          if cat = [] then False
          else
            (let cartCategories = map (\<lambda>item. extractCategory (title item)) cartItems in
             if operator = ''contains'' then list_ex (\<lambda>c. c = cat) cartCategories
             else if operator = ''equals'' then list_all (\<lambda>c. c = cat) cartCategories
             else if operator = ''not_contains'' then \<not> list_ex (\<lambda>c. c = cat) cartCategories
             else False))"

text \<open>\<^verbatim>\<open>cartItems.reduce((sum, item) => sum + (item.price * item.quantity), 0)\<close>\<close>

definition cartTotal :: "cart_item list \<Rightarrow> int" where
  "cartTotal cartItems = foldl (\<lambda>sum item. sum + price item * quantity item) 0 cartItems"

definition evaluateCartValueConditions :: "conditions \<Rightarrow> cart_item list \<Rightarrow> bool" where
  "evaluateCartValueConditions cs cartItems =
     (let total = cartTotal cartItems in
      if cart_value_operator cs = Some ''greater_than''
        then js_gt total (js_or (cart_value cs) (cart_value_min cs))
      else if cart_value_operator cs = Some ''less_than''
        then js_lt total (js_or (cart_value cs) (cart_value_max cs))
      else if cart_value_operator cs = Some ''equals''
        then js_strict_eq total (cart_value cs)
      else if cart_value_operator cs = Some ''between''
        then js_ge total (cart_value_min cs) \<and> js_le total (cart_value_max cs)
      else False)"

text \<open>
  \<^verbatim>\<open>if (time_on_site_min && timeOnSite < time_on_site_min) return false;\<close> and its two
  siblings, after \<^verbatim>\<open>timeContext.timeOnSite || 0\<close>.
\<close>

definition evaluateTimeConditions :: "conditions \<Rightarrow> time_context \<Rightarrow> bool" where
  "evaluateTimeConditions cs tc =
     (let tos = or_zero (timeOnSite tc);
          active = or_zero (activeTimeOnSite tc) in
      if truthy (time_on_site_min cs) \<and> js_lt tos (time_on_site_min cs) then False
      else if truthy (time_on_site_max cs) \<and> js_gt tos (time_on_site_max cs) then False
      else if truthy (active_time_on_site_min cs) \<and> js_lt active (active_time_on_site_min cs)
        then False
      else True)"

section \<open>Rules, campaigns and offers\<close>

text \<open>
  Columns that rows of \<^verbatim>\<open>upsell_rules\<close> and \<^verbatim>\<open>campaigns\<close> share. \<open>row_id\<close> is the
  \<^verbatim>\<open>id\<close> column. JSON columns that the engine only passes through are kept as opaque
  text.
\<close>

record db_row =
  row_id :: string
  user_id :: string
  name :: string
  description :: "string option"
  display_settings :: "string option"
  status :: string

record rule = db_row +
  trigger_type :: string
  trigger_conditions :: conditions
  target_products :: "string list"
  display_type :: "string option"
  priority :: int
  is_active :: bool

record enhanced_settings =
  priority_boost :: "int option"

record override =
  rule_id :: string
  override_type :: string
  enhanced_settings :: "enhanced_settings option"

record campaign = db_row +
  start_date :: int
  end_date :: "int option"
  trigger_products :: "string list"
  upsell_products :: "string list"
  pricing_rules :: "string option"
  rule_overrides :: "override list option"
  target_audience :: "string option"
  override_existing_rules :: bool
  campaign_priority :: int

datatype offer_data = CampaignData campaign | RuleData rule

text \<open>An element of \<^verbatim>\<open>allOffers\<close>: \<^verbatim>\<open>{ type, data, priority }\<close>.\<close>

record candidate =
  cand_type :: string
  cand_data :: offer_data
  cand_priority :: int

text \<open>The object \<^verbatim>\<open>selectBestUpsell\<close> returns.\<close>

record offer =
  offer_type :: string
  offer_id :: string
  offer_title :: string
  offer_description :: "string option"
  offer_target_products :: "string list"
  offer_display_type :: string
  offer_display_settings :: string
  offer_pricing_rules :: string

section \<open>Matchers\<close>

text \<open>
  \<^verbatim>\<open>evaluateCampaigns\<close> filters on the trigger products alone; the \<^verbatim>\<open>target_audience\<close>
  branch is empty and \<^verbatim>\<open>timeContext\<close> is not read.
\<close>

definition hasTriggerProducts :: "campaign \<Rightarrow> cart_item list \<Rightarrow> bool" where
  "hasTriggerProducts c cartItems =
     list_ex (\<lambda>triggerId. list_ex (\<lambda>item. product_id item = triggerId) cartItems)
       (trigger_products c)"

definition evaluateCampaigns ::
  "campaign list \<Rightarrow> cart_item list \<Rightarrow> time_context \<Rightarrow> campaign list" where
  "evaluateCampaigns campaigns cartItems timeContext =
     filter (\<lambda>c. if \<not> hasTriggerProducts c cartItems then False else True) campaigns"

definition ruleMatches :: "rule \<Rightarrow> cart_item list \<Rightarrow> time_context \<Rightarrow> bool" where
  "ruleMatches r cartItems timeContext =
     (let cs = trigger_conditions r in
      if trigger_type r = ''category'' then evaluateCategoryConditions cs cartItems
      else if trigger_type r = ''cart_value'' then evaluateCartValueConditions cs cartItems
      else if trigger_type r = ''time_based'' then evaluateTimeConditions cs timeContext
      else False)"

definition evaluateRules :: "rule list \<Rightarrow> cart_item list \<Rightarrow> time_context \<Rightarrow> rule list" where
  "evaluateRules rules cartItems timeContext =
     filter (\<lambda>r. ruleMatches r cartItems timeContext) rules"

section \<open>Override resolver\<close>

text \<open>\<^verbatim>\<open>Array.prototype.findIndex\<close>; \<open>None\<close> is the result \<^verbatim>\<open>-1\<close>.\<close>

fun findIndex :: "('a \<Rightarrow> bool) \<Rightarrow> 'a list \<Rightarrow> nat option" where
  "findIndex P [] = None"
| "findIndex P (x # xs) = (if P x then Some 0 else map_option Suc (findIndex P xs))"

text \<open>\<^verbatim>\<open>xs.splice(i, 1)\<close>\<close>

definition splice1 :: "nat \<Rightarrow> 'a list \<Rightarrow> 'a list" where
  "splice1 i xs = take i xs @ drop (Suc i) xs"

text \<open>\<^verbatim>\<open>override.enhanced_settings?.priority_boost || 0\<close>\<close>

definition boost :: "override \<Rightarrow> int" where
  "boost ov =
     or_zero (case enhanced_settings ov of None \<Rightarrow> None | Some es \<Rightarrow> priority_boost es)"

text \<open>
  The body of the inner \<^verbatim>\<open>forEach\<close>, as a function of the working array
  \<^verbatim>\<open>overriddenRules\<close>. Only \<^verbatim>\<open>enhance\<close> and \<^verbatim>\<open>suppress\<close> have a case in the
  \<^verbatim>\<open>switch\<close>.
\<close>

definition applyOverride :: "override \<Rightarrow> rule list \<Rightarrow> rule list" where
  "applyOverride ov overriddenRules =
     (case findIndex (\<lambda>r. row_id r = rule_id ov) overriddenRules of
        None \<Rightarrow> overriddenRules
      | Some ruleIndex \<Rightarrow>
          if override_type ov = ''enhance'' then
            overriddenRules[ruleIndex :=
              (overriddenRules ! ruleIndex)
                \<lparr>priority := priority (overriddenRules ! ruleIndex) + boost ov\<rparr>]
          else if override_type ov = ''suppress'' then splice1 ruleIndex overriddenRules
          else overriddenRules)"

definition applyCampaignOverrides :: "campaign \<Rightarrow> rule list \<Rightarrow> rule list" where
  "applyCampaignOverrides c overriddenRules =
     (case rule_overrides c of
        None \<Rightarrow> overriddenRules
      | Some ovs \<Rightarrow> fold applyOverride ovs overriddenRules)"

definition applyRuleOverrides :: "rule list \<Rightarrow> campaign list \<Rightarrow> rule list" where
  "applyRuleOverrides rules campaigns = fold applyCampaignOverrides campaigns rules"

section \<open>Offer selector\<close>

definition campaignCandidate :: "campaign \<Rightarrow> candidate" where
  "campaignCandidate c =
     \<lparr>cand_type = ''campaign'', cand_data = CampaignData c,
      cand_priority = or_zero (Some (campaign_priority c))\<rparr>"

definition ruleCandidate :: "rule \<Rightarrow> candidate" where
  "ruleCandidate r =
     \<lparr>cand_type = ''rule'', cand_data = RuleData r,
      cand_priority = or_zero (Some (priority r))\<rparr>"

definition allOffers :: "campaign list \<Rightarrow> rule list \<Rightarrow> candidate list" where
  "allOffers campaigns rules = map campaignCandidate campaigns @ map ruleCandidate rules"

text \<open>
  \<^verbatim>\<open>allOffers.sort((a, b) => b.priority - a.priority)\<close>. The file uses optional
  chaining, so it runs where \<^verbatim>\<open>Array.prototype.sort\<close> is specified to be stable; the
  result is then the stable sort by descending priority, whichever algorithm computes it.
  Here it is insertion sort on the negated priority.
\<close>

definition sortOffers :: "candidate list \<Rightarrow> candidate list" where
  "sortOffers offers = sort_key (\<lambda>a. - cand_priority a) offers"

text \<open>The fields of the returned object, read off \<^verbatim>\<open>bestOffer.data\<close>.\<close>

definition orDefault :: "string option \<Rightarrow> string \<Rightarrow> string" where
  "orDefault a d = (case a of None \<Rightarrow> d | Some s \<Rightarrow> if s = [] then d else s)"

fun makeOffer :: "candidate \<Rightarrow> offer" where
  "makeOffer best =
     (case cand_data best of
        RuleData r \<Rightarrow>
          \<lparr>offer_type = cand_type best, offer_id = row_id r, offer_title = name r,
           offer_description = description r, offer_target_products = target_products r,
           offer_display_type = orDefault (display_type r) ''popup'',
           offer_display_settings = orDefault (display_settings r) ''{}'',
           offer_pricing_rules = ''[]''\<rparr>
      | CampaignData c \<Rightarrow>
          \<lparr>offer_type = cand_type best, offer_id = row_id c, offer_title = name c,
           offer_description = description c, offer_target_products = upsell_products c,
           offer_display_type = ''popup'',
           offer_display_settings = orDefault (display_settings c) ''{}'',
           offer_pricing_rules = orDefault (pricing_rules c) ''[]''\<rparr>)"

text \<open>\<^verbatim>\<open>allOffers[0]\<close> after the sort; \<open>None\<close> when \<^verbatim>\<open>allOffers.length === 0\<close>.\<close>

definition bestOffer :: "campaign list \<Rightarrow> rule list \<Rightarrow> candidate option" where
  "bestOffer campaigns rules =
     (case sortOffers (allOffers campaigns rules) of
        [] \<Rightarrow> None
      | best # rest \<Rightarrow> Some best)"

definition selectBestUpsell ::
  "campaign list \<Rightarrow> rule list \<Rightarrow> cart_item list \<Rightarrow> offer option" where
  "selectBestUpsell campaigns rules cartItems =
     (case bestOffer campaigns rules of
        None \<Rightarrow> None
      | Some best \<Rightarrow> Some (makeOffer best))"

section \<open>Store access and the evaluation entry point\<close>

text \<open>
  What a query of the store client answers: \<^verbatim>\<open>{ data, error }\<close> with one of the two set.
  A rejected promise takes the same path as an answer with \<^verbatim>\<open>error\<close> set, because
  both end in the \<^verbatim>\<open>catch\<close> of the reading function.
\<close>

datatype 'a response = Failed string | Data 'a

text \<open>A row of \<^verbatim>\<open>upsell_evaluations\<close>.\<close>

record evaluation =
  eval_id :: string
  eval_session_id :: string
  eval_user_id :: string
  eval_cart_items :: "cart_item list"
  eval_offer_id :: "string option"
  eval_offer_type :: "string option"
  eval_created_at :: string

text \<open>
  The store as the engine sees it: the two tables it reads (or the failure of reading
  them), the three product lookups (\<open>None\<close> when a lookup yields no data or throws), and
  the table it appends to, with a flag for a failing insert.
\<close>

record store =
  upsell_rules :: "rule list response"
  campaigns_table :: "campaign list response"
  get_rule_target_products :: "string \<Rightarrow> string list option"
  get_campaign_trigger_products :: "string \<Rightarrow> string list option"
  get_campaign_upsell_products :: "string \<Rightarrow> string list option"
  upsell_evaluations :: "evaluation list"
  insert_fails :: bool

definition orEmpty :: "string list option \<Rightarrow> string list" where
  "orEmpty a = (case a of None \<Rightarrow> [] | Some xs \<Rightarrow> xs)"

text \<open>
  \<^verbatim>\<open>getActiveRules\<close>: the filtered select, then the target products of each row. The
  \<^verbatim>\<open>catch\<close> logs and returns \<^verbatim>\<open>[]\<close>.
\<close>

definition getActiveRules :: "store \<Rightarrow> string \<Rightarrow> rule list" where
  "getActiveRules st uid =
     (case upsell_rules st of
        Failed e \<Rightarrow> []
      | Data rows \<Rightarrow>
          map (\<lambda>r. r\<lparr>target_products := orEmpty (get_rule_target_products st (row_id r))\<rparr>)
            (filter (\<lambda>r. user_id r = uid \<and> is_active r \<and> status r = ''active'') rows))"

definition getActiveCampaigns :: "store \<Rightarrow> string \<Rightarrow> campaign list" where
  "getActiveCampaigns st uid =
     (case campaigns_table st of
        Failed e \<Rightarrow> []
      | Data rows \<Rightarrow>
          map (\<lambda>c. c\<lparr>trigger_products := orEmpty (get_campaign_trigger_products st (row_id c)),
                     upsell_products := orEmpty (get_campaign_upsell_products st (row_id c))\<rparr>)
            (filter (\<lambda>c. user_id c = uid \<and> status c = ''active'') rows))"

text \<open>
  \<^verbatim>\<open>trackUpsellEvaluation\<close>: one insert, whose failure is logged and dropped. The fresh
  identifier and the clock reading are inputs of the model.
\<close>

definition trackUpsellEvaluation ::
  "string \<Rightarrow> string \<Rightarrow> string \<Rightarrow> cart_item list \<Rightarrow> offer option \<Rightarrow> string \<Rightarrow> store \<Rightarrow> store" where
  "trackUpsellEvaluation uuid now sessionId cartItems best uid st =
     (if insert_fails st then st
      else st\<lparr>upsell_evaluations := upsell_evaluations st @
        [\<lparr>eval_id = uuid, eval_session_id = sessionId, eval_user_id = uid,
          eval_cart_items = cartItems, eval_offer_id = map_option offer_id best,
          eval_offer_type = map_option offer_type best, eval_created_at = now\<rparr>]\<rparr>)"

text \<open>
  \<^verbatim>\<open>evaluateUpsells\<close>. Its result is \<open>Inl\<close> for an exception that leaves the function
  and \<open>Inr\<close> for the returned offer (\<open>None\<close> is \<^verbatim>\<open>null\<close>). Its \<^verbatim>\<open>catch\<close> rethrows, but
  neither reader throws and no later step does on well-formed rows.
\<close>

definition evaluateUpsells ::
  "string \<Rightarrow> string \<Rightarrow> cart_item list \<Rightarrow> string \<Rightarrow> string \<Rightarrow> time_context \<Rightarrow> store
     \<Rightarrow> (string + offer option) \<times> store" where
  "evaluateUpsells uuid now cartItems sessionId uid timeContext st =
     (let activeRules = getActiveRules st uid;
          activeCampaigns = getActiveCampaigns st uid;
          matchingCampaigns = evaluateCampaigns activeCampaigns cartItems timeContext;
          matchingRules = evaluateRules activeRules cartItems timeContext;
          overriddenRules = applyRuleOverrides matchingRules matchingCampaigns;
          best = selectBestUpsell matchingCampaigns overriddenRules cartItems;
          st' = trackUpsellEvaluation uuid now sessionId cartItems best uid st
      in (Inr best, st'))"

section \<open>Override application on the object store\<close>

text \<open>
  \<^verbatim>\<open>applyRuleOverrides\<close> copies its argument array and then writes to the copy: an
  \<^verbatim>\<open>enhance\<close> stores a newly built object in a slot, a \<^verbatim>\<open>suppress\<close> splices the
  copy. To say what this leaves untouched, rule objects and arrays of references to them
  live at addresses: an address is an index into the list of objects allocated so far,
  and allocation appends.
\<close>

record heap =
  objects :: "rule list"
  arrays :: "nat list list"

definition deref :: "heap \<Rightarrow> nat \<Rightarrow> rule" where
  "deref h p = objects h ! p"

definition readArray :: "heap \<Rightarrow> nat \<Rightarrow> rule list" where
  "readArray h a = map (deref h) (arrays h ! a)"

text \<open>An array reference a program can hold: allocated, and so is every element.\<close>

definition validArray :: "heap \<Rightarrow> nat \<Rightarrow> bool" where
  "validArray h a = (a < length (arrays h) \<and> list_all (\<lambda>p. p < length (objects h)) (arrays h ! a))"

definition newArray :: "nat list \<Rightarrow> heap \<Rightarrow> nat \<times> heap" where
  "newArray refs h = (length (arrays h), h\<lparr>arrays := arrays h @ [refs]\<rparr>)"

definition newObject :: "rule \<Rightarrow> heap \<Rightarrow> nat \<times> heap" where
  "newObject r h = (length (objects h), h\<lparr>objects := objects h @ [r]\<rparr>)"

definition writeArray :: "nat \<Rightarrow> nat list \<Rightarrow> heap \<Rightarrow> heap" where
  "writeArray a refs h = h\<lparr>arrays := (arrays h)[a := refs]\<rparr>"

text \<open>The inner \<^verbatim>\<open>forEach\<close> body, on the working array at address \<open>arr\<close>.\<close>

definition applyOverrideH :: "nat \<Rightarrow> override \<Rightarrow> heap \<Rightarrow> heap" where
  "applyOverrideH arr ov h =
     (let refs = arrays h ! arr in
      case findIndex (\<lambda>p. row_id (deref h p) = rule_id ov) refs of
        None \<Rightarrow> h
      | Some ruleIndex \<Rightarrow>
          if override_type ov = ''enhance'' then
            (let old = deref h (refs ! ruleIndex);
                 (p, h1) = newObject (old\<lparr>priority := priority old + boost ov\<rparr>) h
             in writeArray arr (refs[ruleIndex := p]) h1)
          else if override_type ov = ''suppress'' then
            writeArray arr (splice1 ruleIndex refs) h
          else h)"

definition applyCampaignOverridesH :: "nat \<Rightarrow> campaign \<Rightarrow> heap \<Rightarrow> heap" where
  "applyCampaignOverridesH arr c h =
     (case rule_overrides c of
        None \<Rightarrow> h
      | Some ovs \<Rightarrow> fold (applyOverrideH arr) ovs h)"

text \<open>\<^verbatim>\<open>const overriddenRules = [...rules]\<close>, the two loops, \<^verbatim>\<open>return overriddenRules\<close>.\<close>

definition applyRuleOverridesH :: "nat \<Rightarrow> campaign list \<Rightarrow> heap \<Rightarrow> nat \<times> heap" where
  "applyRuleOverridesH rules campaigns h =
     (let (arr, h1) = newArray (arrays h ! rules) h
      in (arr, fold (applyCampaignOverridesH arr) campaigns h1))"

text \<open>
  Override application followed by selection, as \<^verbatim>\<open>evaluateUpsells\<close> chains them.
  \<^verbatim>\<open>selectBestUpsell\<close> only reads the rules; the array it sorts is its own.
\<close>

definition resolveAndSelect ::
  "campaign list \<Rightarrow> nat \<Rightarrow> cart_item list \<Rightarrow> heap \<Rightarrow> offer option \<times> heap" where
  "resolveAndSelect campaigns rules cartItems h =
     (let (arr, h') = applyRuleOverridesH rules campaigns h
      in (selectBestUpsell campaigns (readArray h' arr) cartItems, h'))"

section \<open>The specification's wording of the evaluators\<close>

text \<open>
  The threshold rules of the specification, with the reading of ``present'' as a
  parameter: \<open>given\<close> counts every supplied value, \<^const>\<open>truthy\<close> every supplied value
  other than 0.
\<close>

definition given :: "int option \<Rightarrow> bool" where
  "given a = (a \<noteq> None)"

definition pick :: "(int option \<Rightarrow> bool) \<Rightarrow> int option \<Rightarrow> int option \<Rightarrow> int option" where
  "pick present a b = (if present a then a else b)"

definition cartValueSpec :: "(int option \<Rightarrow> bool) \<Rightarrow> conditions \<Rightarrow> int \<Rightarrow> bool" where
  "cartValueSpec present cs tot =
     (if cart_value_operator cs = Some ''greater_than'' then
        (case pick present (cart_value cs) (cart_value_min cs) of
           None \<Rightarrow> False | Some t \<Rightarrow> tot > t)
      else if cart_value_operator cs = Some ''less_than'' then
        (case pick present (cart_value cs) (cart_value_max cs) of
           None \<Rightarrow> False | Some t \<Rightarrow> tot < t)
      else if cart_value_operator cs = Some ''equals'' then cart_value cs = Some tot
      else if cart_value_operator cs = Some ''between'' then
        (case (cart_value_min cs, cart_value_max cs) of
           (Some lo, Some hi) \<Rightarrow> lo \<le> tot \<and> tot \<le> hi
         | _ \<Rightarrow> False)
      else False)"

definition atLeastIf :: "(int option \<Rightarrow> bool) \<Rightarrow> int \<Rightarrow> int option \<Rightarrow> bool" where
  "atLeastIf present x m = (if present m then (case m of None \<Rightarrow> True | Some t \<Rightarrow> t \<le> x) else True)"

definition atMostIf :: "(int option \<Rightarrow> bool) \<Rightarrow> int \<Rightarrow> int option \<Rightarrow> bool" where
  "atMostIf present x m = (if present m then (case m of None \<Rightarrow> True | Some t \<Rightarrow> x \<le> t) else True)"

definition timeSpec :: "(int option \<Rightarrow> bool) \<Rightarrow> conditions \<Rightarrow> time_context \<Rightarrow> bool" where
  "timeSpec present cs tc =
     (atLeastIf present (or_zero (timeOnSite tc)) (time_on_site_min cs) \<and>
      atMostIf present (or_zero (timeOnSite tc)) (time_on_site_max cs) \<and>
      atLeastIf present (or_zero (activeTimeOnSite tc)) (active_time_on_site_min cs))"

section \<open>Sample data\<close>

definition noConditions :: conditions where
  "noConditions =
     \<lparr>category = None, category_operator = None, cart_value_operator = None,
      cart_value = None, cart_value_min = None, cart_value_max = None,
      time_on_site_min = None, time_on_site_max = None, active_time_on_site_min = None\<rparr>"

definition noTime :: time_context where
  "noTime = \<lparr>timeOnSite = None, activeTimeOnSite = None, currentPage = None\<rparr>"

definition item :: "string \<Rightarrow> string \<Rightarrow> int \<Rightarrow> int \<Rightarrow> cart_item" where
  "item p t pr q = \<lparr>product_id = p, title = t, price = pr, quantity = q\<rparr>"

definition sampleRule :: "string \<Rightarrow> string \<Rightarrow> conditions \<Rightarrow> int \<Rightarrow> rule" where
  "sampleRule i ty cs p =
     \<lparr>row_id = i, user_id = ''u1'', name = ''Rule'', description = None,
      display_settings = None, status = ''active'', trigger_type = ty,
      trigger_conditions = cs, target_products = [''T1''], display_type = Some ''cart'',
      priority = p, is_active = True\<rparr>"

definition sampleCampaign ::
  "string \<Rightarrow> string list \<Rightarrow> override list \<Rightarrow> bool \<Rightarrow> int \<Rightarrow> campaign" where
  "sampleCampaign i triggers ovs flag p =
     \<lparr>row_id = i, user_id = ''u1'', name = ''Campaign'', description = None,
      display_settings = None, status = ''active'', start_date = 2000, end_date = Some 3000,
      trigger_products = triggers, upsell_products = [''U1''], pricing_rules = None,
      rule_overrides = Some ovs, target_audience = None, override_existing_rules = flag,
      campaign_priority = p\<rparr>"

definition sampleOverride :: "string \<Rightarrow> string \<Rightarrow> int option \<Rightarrow> override" where
  "sampleOverride i ty b =
     \<lparr>rule_id = i, override_type = ty, enhanced_settings = Some \<lparr>priority_boost = b\<rparr>\<rparr>"

definition sampleStore :: "rule list response \<Rightarrow> campaign list response \<Rightarrow> store" where
  "sampleStore rs cs =
     \<lparr>upsell_rules = rs, campaigns_table = cs,
      get_rule_target_products = (\<lambda>i. Some [''T1'']),
      get_campaign_trigger_products = (\<lambda>i. Some [''P1'']),
      get_campaign_upsell_products = (\<lambda>i. Some [''U1'']),
      upsell_evaluations = [], insert_fails = False\<rparr>"

section \<open>Derived notions used in the statements\<close>

text \<open>The overrides in the order in which the two nested loops of
  \<^verbatim>\<open>applyRuleOverrides\<close> visit them.\<close>

definition allOverrides :: "campaign list \<Rightarrow> override list" where
  "allOverrides campaigns =
     concat (map (\<lambda>c. case rule_overrides c of None \<Rightarrow> [] | Some ovs \<Rightarrow> ovs) campaigns)"

text \<open>A later heap that differs from an earlier one at most in the array at one address
  and in objects allocated since.\<close>

definition onlyWrites :: "nat \<Rightarrow> heap \<Rightarrow> heap \<Rightarrow> bool" where
  "onlyWrites arr h h' =
     (length (arrays h') = length (arrays h) \<and>
      (\<forall>a. a \<noteq> arr \<longrightarrow> arrays h' ! a = arrays h ! a) \<and>
      take (length (objects h)) (objects h') = objects h)"

definition sampleHeap :: heap where
  "sampleHeap =
     \<lparr>objects = [sampleRule ''r1'' ''cart_value'' noConditions 50], arrays = [[0]]\<rparr>"


section \<open>Verified properties\<close>

subsection \<open>Condition evaluators\<close>

lemma first_category_nonempty:
  "list_all (\<lambda>e. fst e \<noteq> []) table \<Longrightarrow> first_category table t \<noteq> []"
  by (induction table t rule: first_category.induct) auto

lemma extractCategory_nonempty: "extractCategory t \<noteq> []"
  unfolding extractCategory_def
  by (rule first_category_nonempty) (simp add: categories_def)

lemma cartTotal_empty: "cartTotal [] = 0"
  by (simp add: cartTotal_def)

text \<open>
  Claim C7, as amended. The cart-value evaluator returns: for \<^verbatim>\<open>greater_than\<close>,
  \<open>cart_total > t\<close> where \<open>t\<close> is \<open>cart_value\<close> when that is given and not 0, else
  \<open>cart_value_min\<close>; for \<^verbatim>\<open>less_than\<close>, \<open>cart_total < t\<close> where \<open>t\<close> is \<open>cart_value\<close>
  when given and not 0, else \<open>cart_value_max\<close>; for \<^verbatim>\<open>equals\<close>, whether \<open>cart_total\<close> is
  exactly \<open>cart_value\<close>; for \<^verbatim>\<open>between\<close>, \<open>cart_value_min \<le> cart_total \<le> cart_value_max\<close>;
  false for any other operator, and false where the threshold compared against is missing.
  A \<open>cart_value\<close> of 0 is treated like a missing one in the first two cases.
\<close>

theorem cart_value_evaluator_truthy:
  "evaluateCartValueConditions cs cartItems = cartValueSpec truthy cs (cartTotal cartItems)"
  by (auto simp: evaluateCartValueConditions_def cartValueSpec_def pick_def Let_def js_or_def
      js_gt_def js_lt_def js_ge_def js_le_def js_strict_eq_def split: option.splits)

theorem cart_value_evaluator_truthy_witness:
  "evaluateCartValueConditions
     (noConditions\<lparr>cart_value_operator := Some ''greater_than'', cart_value_min := Some 50\<rparr>)
     [item ''P1'' ''Tea'' 30 2] = True"
  using cart_value_evaluator_truthy
    [of "noConditions\<lparr>cart_value_operator := Some ''greater_than'', cart_value_min := Some 50\<rparr>"
        "[item ''P1'' ''Tea'' 30 2]"]
  by (simp add: cartValueSpec_def pick_def truthy_def noConditions_def item_def cartTotal_def)

text \<open>
  Claim C7 as stated fails where \<open>cart_value\<close> is given as 0: with \<^verbatim>\<open>greater_than\<close>,
  \<open>cart_value = 0\<close>, \<open>cart_value_min = 50\<close> and a cart total of 10, the evaluator compares
  against 50 and answers false, while the claim's reading compares against 0.
\<close>

theorem cart_value_zero_counterexample:
  "evaluateCartValueConditions
     (noConditions\<lparr>cart_value_operator := Some ''greater_than'', cart_value := Some 0,
        cart_value_min := Some 50\<rparr>) [item ''P1'' ''Tea'' 10 1] = False \<and>
   cartValueSpec given
     (noConditions\<lparr>cart_value_operator := Some ''greater_than'', cart_value := Some 0,
        cart_value_min := Some 50\<rparr>) (cartTotal [item ''P1'' ''Tea'' 10 1]) = True"
  by (simp add: evaluateCartValueConditions_def cartValueSpec_def pick_def given_def
      noConditions_def item_def cartTotal_def js_or_def truthy_def js_gt_def)

text \<open>
  Claim C8, as amended. On the empty cart (total 0), a cart-value rule whose conditions
  have \<open>cart_value_min > 0\<close> matches exactly in three cases: operator \<^verbatim>\<open>less_than\<close> with a
  positive threshold (\<open>cart_value\<close> when given and not 0, else \<open>cart_value_max\<close>), operator
  \<^verbatim>\<open>equals\<close> with \<open>cart_value = 0\<close>, or operator \<^verbatim>\<open>greater_than\<close> with a negative
  \<open>cart_value\<close>. So it never matches under \<^verbatim>\<open>between\<close>, nor under \<^verbatim>\<open>greater_than\<close>
  when \<open>cart_value\<close> is missing or not negative.
\<close>

theorem empty_cart_cart_value_rule:
  assumes "trigger_type r = ''cart_value''"
    and "cart_value_min (trigger_conditions r) = Some m" and "0 < m"
  shows "ruleMatches r [] tc =
     (let cs = trigger_conditions r in
      cart_value_operator cs = Some ''less_than'' \<and>
        (\<exists>t. js_or (cart_value cs) (cart_value_max cs) = Some t \<and> 0 < t) \<or>
      cart_value_operator cs = Some ''equals'' \<and> cart_value cs = Some 0 \<or>
      cart_value_operator cs = Some ''greater_than'' \<and> (\<exists>v. cart_value cs = Some v \<and> v < 0))"
  using assms
  by (auto simp: ruleMatches_def evaluateCartValueConditions_def cartTotal_empty Let_def
      js_or_def truthy_def js_gt_def js_lt_def js_ge_def js_le_def js_strict_eq_def
      split: option.splits)

theorem empty_cart_cart_value_rule_witness:
  "ruleMatches
     (sampleRule ''r1'' ''cart_value''
        (noConditions\<lparr>cart_value_operator := Some ''between'', cart_value_min := Some 50,
           cart_value_max := Some 100\<rparr>) 40) [] noTime = False"
  using empty_cart_cart_value_rule
    [of "sampleRule ''r1'' ''cart_value''
        (noConditions\<lparr>cart_value_operator := Some ''between'', cart_value_min := Some 50,
           cart_value_max := Some 100\<rparr>) 40" 50 noTime]
  by (simp add: sampleRule_def noConditions_def)

text \<open>
  Claim C8 as stated fails for the operator \<^verbatim>\<open>less_than\<close>: the rule ``cart below 100''
  with \<open>cart_value_min = 50\<close> matches the empty cart.
\<close>

theorem empty_cart_less_than_counterexample:
  "cartTotal [] = 0 \<and>
   cart_value_min (trigger_conditions
     (sampleRule ''r1'' ''cart_value''
        (noConditions\<lparr>cart_value_operator := Some ''less_than'', cart_value_min := Some 50,
           cart_value_max := Some 100\<rparr>) 40)) = Some 50 \<and>
   evaluateRules
     [sampleRule ''r1'' ''cart_value''
        (noConditions\<lparr>cart_value_operator := Some ''less_than'', cart_value_min := Some 50,
           cart_value_max := Some 100\<rparr>) 40] [] noTime =
     [sampleRule ''r1'' ''cart_value''
        (noConditions\<lparr>cart_value_operator := Some ''less_than'', cart_value_min := Some 50,
           cart_value_max := Some 100\<rparr>) 40]"
  by (simp add: evaluateRules_def ruleMatches_def evaluateCartValueConditions_def cartTotal_def
      sampleRule_def noConditions_def js_or_def truthy_def js_lt_def)

text \<open>
  Claim C9, as amended. The time evaluator returns true exactly when every threshold that
  is given and not 0 holds (\<open>time_on_site \<ge> time_on_site_min\<close>,
  \<open>time_on_site \<le> time_on_site_max\<close>, \<open>active_time_on_site \<ge> active_time_on_site_min\<close>,
  a time missing from the context counting as 0); a threshold that is missing or 0 is
  satisfied automatically, and a condition with no thresholds returns true.
\<close>

theorem time_evaluator_truthy:
  "evaluateTimeConditions cs tc = timeSpec truthy cs tc \<and>
   (time_on_site_min cs = None \<and> time_on_site_max cs = None \<and>
    active_time_on_site_min cs = None \<longrightarrow> evaluateTimeConditions cs tc)"
  by (auto simp: evaluateTimeConditions_def timeSpec_def atLeastIf_def atMostIf_def Let_def
      truthy_def js_gt_def js_lt_def split: option.splits)

theorem time_evaluator_truthy_witness:
  "evaluateTimeConditions (noConditions\<lparr>time_on_site_min := Some 120\<rparr>)
     (noTime\<lparr>timeOnSite := Some 60\<rparr>) = False \<and>
   evaluateTimeConditions noConditions noTime = True"
  using time_evaluator_truthy [of "noConditions\<lparr>time_on_site_min := Some 120\<rparr>"
      "noTime\<lparr>timeOnSite := Some 60\<rparr>"]
    time_evaluator_truthy [of noConditions noTime]
  by (simp add: timeSpec_def atLeastIf_def atMostIf_def truthy_def noConditions_def noTime_def
      or_zero_def js_or_def)

text \<open>
  Claim C9 as stated fails where a threshold is given as 0: with \<open>time_on_site_max = 0\<close>
  and 5 seconds on site the evaluator answers true, though \<open>5 \<le> 0\<close> does not hold.
\<close>

theorem time_zero_threshold_counterexample:
  "evaluateTimeConditions (noConditions\<lparr>time_on_site_max := Some 0\<rparr>)
     (noTime\<lparr>timeOnSite := Some 5\<rparr>) = True \<and>
   timeSpec given (noConditions\<lparr>time_on_site_max := Some 0\<rparr>)
     (noTime\<lparr>timeOnSite := Some 5\<rparr>) = False"
  by (simp add: evaluateTimeConditions_def timeSpec_def atLeastIf_def atMostIf_def given_def
      truthy_def noConditions_def noTime_def or_zero_def js_or_def js_gt_def js_lt_def)

text \<open>
  Claim C10. A category rule whose conditions name a category and omit
  \<open>category_operator\<close> is matched as with \<^verbatim>\<open>contains\<close>: it matches exactly when some cart
  item's extracted category equals the category. On the empty cart, a condition that
  names a (non-empty) category is true under \<^verbatim>\<open>equals\<close> and under \<^verbatim>\<open>not_contains\<close>,
  and false under \<^verbatim>\<open>contains\<close>.
\<close>

theorem category_operator_defaults_to_contains:
  assumes "category cs = Some c"
  shows "(trigger_type r = ''category'' \<and> trigger_conditions r = cs \<and>
          category_operator cs = None \<longrightarrow>
            ruleMatches r cartItems tc =
              (\<exists>i \<in> set cartItems. extractCategory (title i) = c)) \<and>
         (category_operator cs = None \<longrightarrow>
            evaluateCategoryConditions cs cartItems =
              evaluateCategoryConditions (cs\<lparr>category_operator := Some ''contains''\<rparr>) cartItems) \<and>
         (c \<noteq> [] \<and> category_operator cs = Some ''equals'' \<longrightarrow>
            evaluateCategoryConditions cs []) \<and>
         (c \<noteq> [] \<and> category_operator cs = Some ''not_contains'' \<longrightarrow>
            evaluateCategoryConditions cs []) \<and>
         (category_operator cs = Some ''contains'' \<longrightarrow> \<not> evaluateCategoryConditions cs [])"
  using assms extractCategory_nonempty
  by (auto simp: ruleMatches_def evaluateCategoryConditions_def Let_def list_ex_iff)

theorem category_operator_defaults_to_contains_witness:
  "ruleMatches (sampleRule ''r1'' ''category'' (noConditions\<lparr>category := Some ''coffee''\<rparr>) 40)
     [item ''P1'' ''Coffee Mug'' 30 2] noTime = True \<and>
   evaluateCategoryConditions
     (noConditions\<lparr>category := Some ''coffee'', category_operator := Some ''equals''\<rparr>) [] = True"
proof -
  have a: "extractCategory ''Coffee Mug'' = ''coffee''"
    by code_simp
  have "ruleMatches (sampleRule ''r1'' ''category'' (noConditions\<lparr>category := Some ''coffee''\<rparr>) 40)
     [item ''P1'' ''Coffee Mug'' 30 2] noTime"
    using category_operator_defaults_to_contains
      [of "noConditions\<lparr>category := Some ''coffee''\<rparr>" "''coffee''"
          "sampleRule ''r1'' ''category'' (noConditions\<lparr>category := Some ''coffee''\<rparr>) 40"
          "[item ''P1'' ''Coffee Mug'' 30 2]" noTime] a
    by (simp add: sampleRule_def noConditions_def item_def)
  moreover have "evaluateCategoryConditions
     (noConditions\<lparr>category := Some ''coffee'', category_operator := Some ''equals''\<rparr>) []"
    using category_operator_defaults_to_contains
      [of "noConditions\<lparr>category := Some ''coffee'', category_operator := Some ''equals''\<rparr>"
          "''coffee''"]
    by (simp add: noConditions_def)
  ultimately show ?thesis by simp
qed

subsection \<open>Offer selector\<close>

lemma or_zero_Some: "or_zero (Some x) = x"
  by (simp add: or_zero_def js_or_def truthy_def)

lemma cand_priority_campaign: "cand_priority (campaignCandidate c) = campaign_priority c"
  by (simp add: campaignCandidate_def or_zero_Some)

lemma cand_priority_rule: "cand_priority (ruleCandidate r) = priority r"
  by (simp add: ruleCandidate_def or_zero_Some)

lemma sort_key_head_first:
  "sort_key f xs = b # rest \<Longrightarrow>
     \<exists>pre post. xs = pre @ b # post \<and> (\<forall>a \<in> set pre. f b < f a) \<and> (\<forall>a \<in> set post. f b \<le> f a)"
proof (induction xs arbitrary: b rest)
  case Nil
  then show ?case by simp
next
  case (Cons x xs)
  from Cons.prems have ins: "insort_key f x (sort_key f xs) = b # rest" by simp
  show ?case
  proof (cases "sort_key f xs")
    case Nil
    then have "xs = []" by (metis length_sort list.size(3) length_0_conv)
    with ins Nil have "b = x" by simp
    with \<open>xs = []\<close> show ?thesis by fastforce
  next
    case (Cons y ys)
    from Cons.IH [OF Cons] obtain pre post where
      xs: "xs = pre @ y # post" and pre: "\<forall>a \<in> set pre. f y < f a"
      and post: "\<forall>a \<in> set post. f y \<le> f a" by blast
    show ?thesis
    proof (cases "f x \<le> f y")
      case True
      with ins Cons have "b = x" by simp
      moreover have "\<forall>a \<in> set xs. f x \<le> f a"
        using True xs pre post by fastforce
      ultimately show ?thesis by (intro exI [of _ "[]"] exI [of _ xs]) simp
    next
      case False
      with ins Cons have "b = y" by simp
      with False xs pre post show ?thesis
        by (intro exI [of _ "x # pre"] exI [of _ post]) auto
    qed
  qed
qed

lemma bestOffer_first_max:
  assumes "bestOffer campaigns rules = Some best"
  shows "\<exists>pre post. allOffers campaigns rules = pre @ best # post \<and>
           (\<forall>a \<in> set pre. cand_priority a < cand_priority best) \<and>
           (\<forall>a \<in> set post. cand_priority a \<le> cand_priority best)"
proof -
  from assms obtain rest where "sort_key (\<lambda>a. - cand_priority a) (allOffers campaigns rules) = best # rest"
    by (auto simp: bestOffer_def sortOffers_def split: list.splits)
  from sort_key_head_first [OF this] show ?thesis by simp
qed

lemma rule_beats_all_campaigns:
  assumes "bestOffer campaigns rules = Some best" and "cand_type best = ''rule''"
  shows "\<forall>c \<in> set campaigns. campaign_priority c < cand_priority best"
proof -
  from bestOffer_first_max [OF assms(1)] obtain pre post where
    eq: "map campaignCandidate campaigns @ map ruleCandidate rules = pre @ best # post"
    and pre: "\<forall>a \<in> set pre. cand_priority a < cand_priority best"
    by (auto simp: allOffers_def)
  have notc: "best \<notin> set (map campaignCandidate campaigns)"
    using assms(2) by (auto simp: campaignCandidate_def)
  from eq obtain us where
    "(map campaignCandidate campaigns = pre @ us \<and> us @ map ruleCandidate rules = best # post) \<or>
     (map campaignCandidate campaigns @ us = pre \<and> map ruleCandidate rules = us @ best # post)"
    by (auto simp: append_eq_append_conv2)
  then have "set (map campaignCandidate campaigns) \<subseteq> set pre"
  proof
    assume h: "map campaignCandidate campaigns = pre @ us \<and> us @ map ruleCandidate rules = best # post"
    show ?thesis
    proof (cases us)
      case Nil with h show ?thesis by simp
    next
      case (Cons u us')
      with h have "best \<in> set (map campaignCandidate campaigns)" by simp
      with notc show ?thesis by simp
    qed
  next
    assume "map campaignCandidate campaigns @ us = pre \<and> map ruleCandidate rules = us @ best # post"
    then show ?thesis by auto
  qed
  with pre show ?thesis by (auto simp: cand_priority_campaign [symmetric])
qed

lemma bestOffer_in_allOffers:
  "bestOffer campaigns rules = Some best \<Longrightarrow> best \<in> set (allOffers campaigns rules)"
  by (drule bestOffer_first_max) auto

lemma rule_offer_from_rules:
  assumes "selectBestUpsell campaigns rules cartItems = Some off" and "offer_type off = ''rule''"
  shows "\<exists>r \<in> set rules. offer_id off = row_id r"
proof -
  from assms(1) obtain best where b: "bestOffer campaigns rules = Some best"
    and off: "off = makeOffer best"
    by (auto simp: selectBestUpsell_def split: option.splits)
  from bestOffer_in_allOffers [OF b]
  have "best \<in> campaignCandidate ` set campaigns \<or> best \<in> ruleCandidate ` set rules"
    by (auto simp: allOffers_def)
  then show ?thesis
  proof
    assume "best \<in> campaignCandidate ` set campaigns"
    with off assms(2) show ?thesis by (auto simp: campaignCandidate_def)
  next
    assume "best \<in> ruleCandidate ` set rules"
    with off show ?thesis by (auto simp: ruleCandidate_def)
  qed
qed

text \<open>
  Claim C6, as amended. When two candidates have equal priority the one inserted earlier
  wins: the selected candidate is the first one of greatest priority in the candidate
  list. The list is built with the campaigns before the rules. Hence a rule is selected
  only if its priority is strictly greater than that of every matched campaign; with a
  rule and a campaign of equal priority, the rule is not selected over the campaign.
\<close>

theorem selector_prefers_earlier_candidate:
  assumes "bestOffer campaigns rules = Some best"
  shows "(\<exists>pre post. allOffers campaigns rules = pre @ best # post \<and>
            (\<forall>a \<in> set pre. cand_priority a < cand_priority best) \<and>
            (\<forall>a \<in> set post. cand_priority a \<le> cand_priority best)) \<and>
         allOffers campaigns rules =
            map campaignCandidate campaigns @ map ruleCandidate rules \<and>
         selectBestUpsell campaigns rules cartItems = Some (makeOffer best) \<and>
         (cand_type best = ''rule'' \<longrightarrow>
            (\<forall>c \<in> set campaigns. campaign_priority c < cand_priority best))"
  using bestOffer_first_max [OF assms] rule_beats_all_campaigns [OF assms] assms
  by (simp add: allOffers_def selectBestUpsell_def)

theorem selector_prefers_earlier_candidate_witness:
  "bestOffer [sampleCampaign ''c1'' [''P1''] [] False 10]
     [sampleRule ''r1'' ''cart_value'' noConditions 40] =
     Some (ruleCandidate (sampleRule ''r1'' ''cart_value'' noConditions 40)) \<and>
   campaign_priority (sampleCampaign ''c1'' [''P1''] [] False 10) <
     cand_priority (ruleCandidate (sampleRule ''r1'' ''cart_value'' noConditions 40))"
proof -
  have b: "bestOffer [sampleCampaign ''c1'' [''P1''] [] False 10]
     [sampleRule ''r1'' ''cart_value'' noConditions 40] =
     Some (ruleCandidate (sampleRule ''r1'' ''cart_value'' noConditions 40))"
    by (simp add: bestOffer_def sortOffers_def allOffers_def cand_priority_campaign
        cand_priority_rule sampleCampaign_def sampleRule_def)
  from selector_prefers_earlier_candidate [OF b] b show ?thesis
    by (simp add: ruleCandidate_def)
qed

text \<open>
  Claim C6 as stated fails: a campaign and a rule, both of priority 50, are candidates,
  and the campaign is selected.
\<close>

theorem equal_priority_campaign_wins_counterexample:
  "cand_priority (campaignCandidate (sampleCampaign ''c1'' [''P1''] [] False 50)) =
     cand_priority (ruleCandidate (sampleRule ''r1'' ''cart_value'' noConditions 50)) \<and>
   map_option offer_type
     (selectBestUpsell [sampleCampaign ''c1'' [''P1''] [] False 50]
        [sampleRule ''r1'' ''cart_value'' noConditions 50] [item ''P1'' ''Tea'' 30 2]) =
     Some ''campaign'' \<and>
   map_option offer_id
     (selectBestUpsell [sampleCampaign ''c1'' [''P1''] [] False 50]
        [sampleRule ''r1'' ''cart_value'' noConditions 50] [item ''P1'' ''Tea'' 30 2]) =
     Some ''c1''"
  by code_simp

text \<open>
  Claim C1 at its failing input. A matched campaign with
  \<open>override_existing_rules = true\<close> and \<open>campaign_priority = 10\<close> competes with a rule of
  priority 100: the selector returns the rule. The flag is not read by the selector.
\<close>

theorem override_flag_not_honoured:
  "override_existing_rules (sampleCampaign ''c1'' [''P1''] [] True 10) \<and>
   map_option offer_type
     (selectBestUpsell [sampleCampaign ''c1'' [''P1''] [] True 10]
        [sampleRule ''r1'' ''cart_value'' noConditions 100] [item ''P1'' ''Tea'' 30 2]) =
     Some ''rule'' \<and>
   map_option offer_id
     (selectBestUpsell [sampleCampaign ''c1'' [''P1''] [] True 10]
        [sampleRule ''r1'' ''cart_value'' noConditions 100] [item ''P1'' ''Tea'' 30 2]) =
     Some ''r1''"
  by code_simp

subsection \<open>Campaign matcher\<close>

text \<open>What the matcher does keep: the campaigns with a trigger product in the cart, in
  their order, whatever their status, dates and audience.\<close>

lemma evaluateCampaigns_keeps:
  "evaluateCampaigns campaigns cartItems tc =
     filter (\<lambda>c. \<exists>p \<in> set (trigger_products c). \<exists>i \<in> set cartItems. product_id i = p)
       campaigns"
  by (simp add: evaluateCampaigns_def hasTriggerProducts_def list_ex_iff)

text \<open>
  Claim C2 at its failing input. Two active campaigns with the disjoint date windows
  \<open>[2000, 3000]\<close> and \<open>[5000, 6000]\<close>, each triggered by a product in the cart, are both
  kept by one call of the matcher, although no time lies in both windows: the matcher
  reads neither the dates nor a clock.
\<close>

theorem campaign_dates_not_checked:
  "evaluateCampaigns
     [sampleCampaign ''c1'' [''P1''] [] False 10,
      (sampleCampaign ''c2'' [''P1''] [] False 10)\<lparr>start_date := 5000, end_date := Some 6000\<rparr>]
     [item ''P1'' ''Tea'' 30 2] noTime =
     [sampleCampaign ''c1'' [''P1''] [] False 10,
      (sampleCampaign ''c2'' [''P1''] [] False 10)\<lparr>start_date := 5000, end_date := Some 6000\<rparr>] \<and>
   start_date (sampleCampaign ''c1'' [''P1''] [] False 10) = 2000 \<and>
   end_date (sampleCampaign ''c1'' [''P1''] [] False 10) = Some 3000"
  by (simp add: evaluateCampaigns_def hasTriggerProducts_def sampleCampaign_def item_def)

subsection \<open>Override resolver\<close>

lemma findIndex_None: "findIndex P xs = None \<longleftrightarrow> (\<forall>x \<in> set xs. \<not> P x)"
  by (induction xs) auto

lemma findIndex_Some:
  "findIndex P xs = Some i \<Longrightarrow> i < length xs \<and> P (xs ! i)"
  by (induction xs arbitrary: i) (auto split: if_splits)

lemma findIndex_map: "findIndex P (map f xs) = findIndex (\<lambda>x. P (f x)) xs"
  by (induction xs) auto

lemma ids_applyOverride:
  "map row_id (applyOverride ov rs) =
     (case findIndex (\<lambda>r. row_id r = rule_id ov) rs of
        None \<Rightarrow> map row_id rs
      | Some i \<Rightarrow> if override_type ov = ''suppress'' then splice1 i (map row_id rs)
                  else map row_id rs)"
  by (auto simp: applyOverride_def splice1_def map_update take_map drop_map list_update_same_conv
      dest: findIndex_Some split: option.splits)

lemma splice1_simps:
  "splice1 i [] = []" "splice1 0 (x # xs) = xs" "splice1 (Suc i) (x # xs) = x # splice1 i xs"
  by (simp_all add: splice1_def)

lemma set_splice1: "set (splice1 i xs) \<subseteq> set xs"
proof (induction xs arbitrary: i)
  case Nil
  then show ?case by (simp add: splice1_simps)
next
  case (Cons x xs)
  show ?case
  proof (cases i)
    case 0
    then show ?thesis by (auto simp: splice1_simps)
  next
    case (Suc j)
    with Cons.IH [of j] show ?thesis by (auto simp: splice1_simps)
  qed
qed

lemma distinct_splice1: "distinct xs \<Longrightarrow> distinct (splice1 i xs)"
proof (induction xs arbitrary: i)
  case Nil
  then show ?case by (simp add: splice1_simps)
next
  case (Cons x xs)
  show ?case
  proof (cases i)
    case 0
    with Cons.prems show ?thesis by (simp add: splice1_simps)
  next
    case (Suc j)
    with Cons set_splice1 [of j xs] show ?thesis by (auto simp: splice1_simps)
  qed
qed

lemma splice1_removes: "distinct xs \<Longrightarrow> i < length xs \<Longrightarrow> xs ! i \<notin> set (splice1 i xs)"
proof (induction xs arbitrary: i)
  case Nil
  then show ?case by simp
next
  case (Cons x xs)
  show ?case
  proof (cases i)
    case 0
    with Cons.prems show ?thesis by (simp add: splice1_simps)
  next
    case (Suc j)
    with Cons set_splice1 [of j xs] show ?thesis by (auto simp: splice1_simps)
  qed
qed


lemma ids_applyOverride_subset:
  "set (map row_id (applyOverride ov rs)) \<subseteq> set (map row_id rs)"
  using set_splice1 [of _ "map row_id rs"]
  by (simp only: ids_applyOverride) (auto split: option.splits)

lemma distinct_applyOverride:
  "distinct (map row_id rs) \<Longrightarrow> distinct (map row_id (applyOverride ov rs))"
  by (simp only: ids_applyOverride) (auto simp: distinct_splice1 split: option.splits)

lemma suppress_applyOverride:
  assumes "distinct (map row_id rs)" and "override_type ov = ''suppress''"
  shows "rule_id ov \<notin> set (map row_id (applyOverride ov rs))"
proof (cases "findIndex (\<lambda>r. row_id r = rule_id ov) rs")
  case None
  then have "\<forall>r \<in> set rs. row_id r \<noteq> rule_id ov" by (simp add: findIndex_None)
  with None show ?thesis by (auto simp: ids_applyOverride)
next
  case (Some i)
  from findIndex_Some [OF Some] have i: "i < length (map row_id rs)"
    and at: "map row_id rs ! i = rule_id ov" by simp_all
  from splice1_removes [OF assms(1) i] at Some assms(2) show ?thesis
    by (simp add: ids_applyOverride)
qed

lemma applyOverride_absent:
  "rule_id ov \<notin> set (map row_id rs) \<Longrightarrow> applyOverride ov rs = rs"
proof -
  assume "rule_id ov \<notin> set (map row_id rs)"
  then have "findIndex (\<lambda>r. row_id r = rule_id ov) rs = None"
    unfolding findIndex_None by force
  then show ?thesis by (simp add: applyOverride_def)
qed

lemma fold_applyOverride_ids:
  "set (map row_id (fold applyOverride ovs rs)) \<subseteq> set (map row_id rs)"
proof (induction ovs arbitrary: rs)
  case Nil
  show ?case by simp
next
  case (Cons ov ovs)
  from Cons.IH [of "applyOverride ov rs"] ids_applyOverride_subset [of ov rs]
  show ?case by simp
qed

lemma fold_applyOverride_distinct:
  "distinct (map row_id rs) \<Longrightarrow> distinct (map row_id (fold applyOverride ovs rs))"
  by (induction ovs arbitrary: rs) (simp_all add: distinct_applyOverride)

lemma applyRuleOverrides_flat:
  "applyRuleOverrides rules campaigns = fold applyOverride (allOverrides campaigns) rules"
  unfolding applyRuleOverrides_def allOverrides_def
  by (induction campaigns arbitrary: rules)
    (simp_all add: applyCampaignOverrides_def split: option.splits)

lemma in_allOverrides:
  "c \<in> set campaigns \<Longrightarrow> rule_overrides c = Some ovs \<Longrightarrow> ov \<in> set ovs \<Longrightarrow>
     ov \<in> set (allOverrides campaigns)"
  unfolding allOverrides_def by force

lemma suppressed_after:
  assumes "distinct (map row_id rules)" and "override_type ov = ''suppress''"
  shows "rule_id ov \<notin> set (map row_id (fold applyOverride (pre @ ov # post) rules))"
proof -
  let ?s = "applyOverride ov (fold applyOverride pre rules)"
  have "rule_id ov \<notin> set (map row_id ?s)"
    using assms by (intro suppress_applyOverride fold_applyOverride_distinct)
  with fold_applyOverride_ids [of post ?s] show ?thesis by auto
qed

lemma later_override_noop:
  assumes "distinct (map row_id rules)" and "override_type ov = ''suppress''"
    and "rule_id later = rule_id ov"
  shows "fold applyOverride (pre @ ov # mid @ later # post) rules =
         fold applyOverride (pre @ ov # mid @ post) rules"
proof -
  let ?s = "fold applyOverride (pre @ ov # mid) rules"
  have "rule_id later \<notin> set (map row_id ?s)"
    using suppressed_after [OF assms(1,2), of pre mid] assms(3) by simp
  then have "applyOverride later ?s = ?s" by (rule applyOverride_absent)
  then show ?thesis by simp
qed

text \<open>The rules that reach the resolver are rows of one table; when the table's ids are
  distinct, as its primary key requires, so are theirs.\<close>

lemma matched_rules_distinct_ids:
  assumes "upsell_rules st = Data rows" and "distinct (map row_id rows)"
  shows "distinct (map row_id (evaluateRules (getActiveRules st uid) cartItems tc))"
proof -
  have "map row_id (getActiveRules st uid) =
        map row_id (filter (\<lambda>r. user_id r = uid \<and> is_active r \<and> status r = ''active'') rows)"
    using assms(1) by (simp add: getActiveRules_def)
  with assms(2) have "distinct (map row_id (getActiveRules st uid))"
    by (simp add: distinct_map_filter)
  then show ?thesis
    by (simp add: evaluateRules_def distinct_map_filter)
qed

text \<open>
  Claim C3. Let the matched rules have pairwise distinct ids (they are rows of one table
  keyed by id). A rule targeted by a \<^verbatim>\<open>suppress\<close> override of any matched campaign is
  absent from the resolved rule list, so no rule offer with its id is ever selected,
  whatever its priority. Once it is suppressed, a later override naming the same rule
  (an \<^verbatim>\<open>enhance\<close> in particular) has no effect: the resolved list is the one obtained
  without that later override.
\<close>

theorem suppressed_rule_absent:
  assumes "distinct (map row_id rules)"
    and "c \<in> set campaigns" and "rule_overrides c = Some ovs" and "ov \<in> set ovs"
    and "override_type ov = ''suppress''"
  shows "rule_id ov \<notin> set (map row_id (applyRuleOverrides rules campaigns)) \<and>
         (\<forall>off. selectBestUpsell campaigns (applyRuleOverrides rules campaigns) cartItems = Some off
            \<and> offer_type off = ''rule'' \<longrightarrow> offer_id off \<noteq> rule_id ov) \<and>
         (\<forall>pre mid later post.
            allOverrides campaigns = pre @ ov # mid @ later # post \<and> rule_id later = rule_id ov
            \<longrightarrow> applyRuleOverrides rules campaigns =
                 fold applyOverride (pre @ ov # mid @ post) rules)"
proof -
  from in_allOverrides [OF assms(2,3,4)] obtain pre post
    where split: "allOverrides campaigns = pre @ ov # post"
    by (auto dest: split_list)
  have absent: "rule_id ov \<notin> set (map row_id (applyRuleOverrides rules campaigns))"
    using suppressed_after [OF assms(1,5), of pre post] split
    by (simp add: applyRuleOverrides_flat)
  moreover have "offer_id off \<noteq> rule_id ov"
    if "selectBestUpsell campaigns (applyRuleOverrides rules campaigns) cartItems = Some off"
      and "offer_type off = ''rule''" for off
    using rule_offer_from_rules [OF that] absent by auto
  moreover have "applyRuleOverrides rules campaigns =
      fold applyOverride (pre' @ ov # mid @ post') rules"
    if "allOverrides campaigns = pre' @ ov # mid @ later # post'" and "rule_id later = rule_id ov"
    for pre' mid later post'
    using later_override_noop [OF assms(1,5) that(2), of pre' mid post'] that(1)
    by (simp add: applyRuleOverrides_flat)
  ultimately show ?thesis by blast
qed


theorem suppressed_rule_absent_witness:
  "''r1'' \<notin> set (map row_id
     (applyRuleOverrides [sampleRule ''r1'' ''cart_value'' noConditions 60]
        [sampleCampaign ''c1'' [''P1'']
           [sampleOverride ''r1'' ''suppress'' None, sampleOverride ''r1'' ''enhance'' (Some 20)]
           False 10])) \<and>
   applyRuleOverrides [sampleRule ''r1'' ''cart_value'' noConditions 60]
        [sampleCampaign ''c1'' [''P1'']
           [sampleOverride ''r1'' ''suppress'' None, sampleOverride ''r1'' ''enhance'' (Some 20)]
           False 10] =
     fold applyOverride [sampleOverride ''r1'' ''suppress'' None]
       [sampleRule ''r1'' ''cart_value'' noConditions 60]"
proof -
  let ?s = "sampleOverride ''r1'' ''suppress'' None"
  let ?e = "sampleOverride ''r1'' ''enhance'' (Some 20)"
  let ?c = "sampleCampaign ''c1'' [''P1''] [?s, ?e] False 10"
  let ?rs = "[sampleRule ''r1'' ''cart_value'' noConditions 60]"
  have d: "distinct (map row_id ?rs)" by simp
  have o: "rule_overrides ?c = Some [?s, ?e]" by (simp add: sampleCampaign_def)
  have t: "override_type ?s = ''suppress''" by (simp add: sampleOverride_def)
  have a: "allOverrides [?c] = [] @ ?s # [] @ ?e # []" by (simp add: allOverrides_def o)
  have i: "rule_id ?e = rule_id ?s" by (simp add: sampleOverride_def)
  have m1: "?c \<in> set [?c]" and m2: "?s \<in> set [?s, ?e]" by simp_all
  note T = suppressed_rule_absent [OF d m1 o m2 t, of "[]"]
  have 1: "rule_id ?s \<notin> set (map row_id (applyRuleOverrides ?rs [?c]))"
    by (rule T [THEN conjunct1])
  have 3: "applyRuleOverrides ?rs [?c] = fold applyOverride ([] @ ?s # [] @ []) ?rs"
    using T [THEN conjunct2, THEN conjunct2, rule_format, of "[]" "[]" ?e "[]"] a i
    by blast
  have "rule_id ?s = ''r1''" by (simp add: sampleOverride_def)
  with 1 3 show ?thesis by simp
qed

subsection \<open>Override application leaves its input in place\<close>

lemma map_splice1: "map f (splice1 i xs) = splice1 i (map f xs)"
  by (simp add: splice1_def take_map drop_map)

text \<open>What one override leaves in place, and what the working array reads as afterwards.\<close>

lemma applyOverrideH_step:
  assumes v: "validArray h arr"
  shows "validArray (applyOverrideH arr ov h) arr"
    and "readArray (applyOverrideH arr ov h) arr = applyOverride ov (readArray h arr)"
    and "length (arrays (applyOverrideH arr ov h)) = length (arrays h)"
    and "\<forall>a. a \<noteq> arr \<longrightarrow> arrays (applyOverrideH arr ov h) ! a = arrays h ! a"
    and "take (length (objects h)) (objects (applyOverrideH arr ov h)) = objects h"
    and "length (objects h) \<le> length (objects (applyOverrideH arr ov h))"
proof -
  let ?refs = "arrays h ! arr"
  have arr: "arr < length (arrays h)" and refs: "\<forall>p \<in> set ?refs. p < length (objects h)"
    using v by (simp_all add: validArray_def list_all_iff)
  have fi: "findIndex (\<lambda>p. row_id (deref h p) = rule_id ov) ?refs =
            findIndex (\<lambda>r. row_id r = rule_id ov) (readArray h arr)"
    by (simp add: readArray_def findIndex_map)
  show "validArray (applyOverrideH arr ov h) arr"
    using arr refs set_splice1 [of _ ?refs]
    by (auto simp: applyOverrideH_def validArray_def list_all_iff newObject_def writeArray_def
        Let_def less_Suc_eq dest!: set_update_subset_insert [THEN subsetD] split: option.splits)
  show "readArray (applyOverrideH arr ov h) arr = applyOverride ov (readArray h arr)"
  proof (cases "findIndex (\<lambda>r. row_id r = rule_id ov) (readArray h arr)")
    case None
    with fi show ?thesis by (simp add: applyOverrideH_def applyOverride_def)
  next
    case (Some i)
    from findIndex_Some [OF Some] have i: "i < length ?refs" by (simp add: readArray_def)
    have old: "\<forall>p \<in> set ?refs. (objects h @ [x]) ! p = objects h ! p" for x
      using refs by (simp add: nth_append)
    have upd: "map (\<lambda>p. (objects h @ [x]) ! p) (?refs[i := length (objects h)]) =
               (map (\<lambda>p. objects h ! p) ?refs)[i := x]" for x
      using old [of x] by (simp add: map_update cong: map_cong)
    show ?thesis
      using fi Some arr i upd
      by (simp add: applyOverrideH_def applyOverride_def readArray_def deref_def newObject_def
          writeArray_def Let_def map_splice1 cong: map_cong)
  qed
  show "length (arrays (applyOverrideH arr ov h)) = length (arrays h)"
    by (simp add: applyOverrideH_def newObject_def writeArray_def Let_def split: option.splits)
  show "\<forall>a. a \<noteq> arr \<longrightarrow> arrays (applyOverrideH arr ov h) ! a = arrays h ! a"
    by (simp add: applyOverrideH_def newObject_def writeArray_def Let_def split: option.splits)
  show "take (length (objects h)) (objects (applyOverrideH arr ov h)) = objects h"
    by (simp add: applyOverrideH_def newObject_def writeArray_def Let_def split: option.splits)
  show "length (objects h) \<le> length (objects (applyOverrideH arr ov h))"
    by (simp add: applyOverrideH_def newObject_def writeArray_def Let_def split: option.splits)
qed


lemma onlyWrites_refl: "onlyWrites arr h h"
  by (simp add: onlyWrites_def)

lemma onlyWrites_length: "onlyWrites arr h h' \<Longrightarrow> length (objects h) \<le> length (objects h')"
  unfolding onlyWrites_def by (metis length_take min.cobounded1)

lemma onlyWrites_trans:
  assumes "onlyWrites arr h h1" and "onlyWrites arr h1 h2"
  shows "onlyWrites arr h h2"
proof -
  have "take (length (objects h)) (objects h2) =
        take (length (objects h)) (take (length (objects h1)) (objects h2))"
    using onlyWrites_length [OF assms(1)] by (simp add: min_def)
  with assms show ?thesis by (simp add: onlyWrites_def)
qed

lemma applyOverrideH_onlyWrites:
  "validArray h arr \<Longrightarrow> onlyWrites arr h (applyOverrideH arr ov h)"
  using applyOverrideH_step(3,4,5) [of h arr ov] by (simp add: onlyWrites_def)

lemma fold_applyOverrideH:
  "validArray h arr \<Longrightarrow>
     validArray (fold (applyOverrideH arr) ovs h) arr \<and>
     readArray (fold (applyOverrideH arr) ovs h) arr = fold applyOverride ovs (readArray h arr) \<and>
     onlyWrites arr h (fold (applyOverrideH arr) ovs h)"
proof (induction ovs arbitrary: h)
  case Nil
  then show ?case by (simp add: onlyWrites_refl)
next
  case (Cons ov ovs)
  let ?h1 = "applyOverrideH arr ov h"
  have v1: "validArray ?h1 arr" by (rule applyOverrideH_step(1) [OF Cons.prems])
  from Cons.IH [OF v1] applyOverrideH_step(2) [OF Cons.prems, of ov]
    onlyWrites_trans [OF applyOverrideH_onlyWrites [OF Cons.prems, of ov]]
  show ?case by simp
qed

lemma applyCampaignOverridesH_step:
  "validArray h arr \<Longrightarrow>
     validArray (applyCampaignOverridesH arr c h) arr \<and>
     readArray (applyCampaignOverridesH arr c h) arr = applyCampaignOverrides c (readArray h arr) \<and>
     onlyWrites arr h (applyCampaignOverridesH arr c h)"
  using fold_applyOverrideH [of h arr]
  by (simp add: applyCampaignOverridesH_def applyCampaignOverrides_def onlyWrites_refl
      split: option.splits)

lemma fold_applyCampaignOverridesH:
  "validArray h arr \<Longrightarrow>
     validArray (fold (applyCampaignOverridesH arr) cs h) arr \<and>
     readArray (fold (applyCampaignOverridesH arr) cs h) arr =
       applyRuleOverrides (readArray h arr) cs \<and>
     onlyWrites arr h (fold (applyCampaignOverridesH arr) cs h)"
proof (induction cs arbitrary: h)
  case Nil
  then show ?case by (simp add: onlyWrites_refl applyRuleOverrides_def)
next
  case (Cons c cs)
  let ?h1 = "applyCampaignOverridesH arr c h"
  from applyCampaignOverridesH_step [OF Cons.prems, of c]
  have v1: "validArray ?h1 arr"
    and r1: "readArray ?h1 arr = applyCampaignOverrides c (readArray h arr)"
    and w1: "onlyWrites arr h ?h1" by simp_all
  from Cons.IH [OF v1] r1 onlyWrites_trans [OF w1]
  show ?case by (simp add: applyRuleOverrides_def)
qed

text \<open>The copy made by \<^verbatim>\<open>[...rules]\<close> is a valid array that reads as the original.\<close>

lemma newArray_copy:
  assumes "validArray h rules"
  shows "validArray (snd (newArray (arrays h ! rules) h)) (length (arrays h))"
    and "readArray (snd (newArray (arrays h ! rules) h)) (length (arrays h)) = readArray h rules"
  using assms by (simp_all add: newArray_def validArray_def readArray_def deref_def)

lemma applyRuleOverridesH_result:
  assumes "validArray h rules"
  shows "fst (applyRuleOverridesH rules campaigns h) = length (arrays h)"
    and "readArray (snd (applyRuleOverridesH rules campaigns h))
           (fst (applyRuleOverridesH rules campaigns h)) =
         applyRuleOverrides (readArray h rules) campaigns"
    and "\<forall>a < length (arrays h).
           arrays (snd (applyRuleOverridesH rules campaigns h)) ! a = arrays h ! a"
    and "\<forall>p < length (objects h).
           deref (snd (applyRuleOverridesH rules campaigns h)) p = deref h p"
    and "length (arrays h) < length (arrays (snd (applyRuleOverridesH rules campaigns h)))"
    and "length (objects h) \<le> length (objects (snd (applyRuleOverridesH rules campaigns h)))"
proof -
  let ?arr = "length (arrays h)"
  let ?h1 = "snd (newArray (arrays h ! rules) h)"
  let ?h' = "fold (applyCampaignOverridesH ?arr) campaigns ?h1"
  have res: "applyRuleOverridesH rules campaigns h = (?arr, ?h')"
    by (simp add: applyRuleOverridesH_def newArray_def)
  from fold_applyCampaignOverridesH [OF newArray_copy(1) [OF assms], of campaigns]
  have rd: "readArray ?h' ?arr = applyRuleOverrides (readArray ?h1 ?arr) campaigns"
    and ow: "onlyWrites ?arr ?h1 ?h'" by simp_all
  show "fst (applyRuleOverridesH rules campaigns h) = length (arrays h)"
    by (simp add: res)
  show "readArray (snd (applyRuleOverridesH rules campaigns h))
           (fst (applyRuleOverridesH rules campaigns h)) =
         applyRuleOverrides (readArray h rules) campaigns"
    using rd newArray_copy(2) [OF assms] by (simp add: res)
  show "\<forall>a < length (arrays h).
           arrays (snd (applyRuleOverridesH rules campaigns h)) ! a = arrays h ! a"
    using ow by (simp add: res onlyWrites_def newArray_def nth_append)
  have "take (length (objects h)) (objects ?h') = objects h"
    using ow by (simp add: onlyWrites_def newArray_def)
  then have "\<forall>p < length (objects h). objects ?h' ! p = objects h ! p"
    by (metis nth_take)
  then show "\<forall>p < length (objects h).
           deref (snd (applyRuleOverridesH rules campaigns h)) p = deref h p"
    by (simp add: res deref_def)
  show "length (arrays h) < length (arrays (snd (applyRuleOverridesH rules campaigns h)))"
    using ow by (simp add: res onlyWrites_def newArray_def)
  show "length (objects h) \<le> length (objects (snd (applyRuleOverridesH rules campaigns h)))"
    using onlyWrites_length [OF ow] by (simp add: res newArray_def)
qed

lemma applyRuleOverridesH_frame:
  assumes "validArray h rules"
  shows "validArray (snd (applyRuleOverridesH rules campaigns h)) rules"
    and "readArray (snd (applyRuleOverridesH rules campaigns h)) rules = readArray h rules"
proof -
  let ?h' = "snd (applyRuleOverridesH rules campaigns h)"
  have r: "rules < length (arrays h)"
    and ps: "\<forall>p \<in> set (arrays h ! rules). p < length (objects h)"
    using assms by (simp_all add: validArray_def list_all_iff)
  have same: "arrays ?h' ! rules = arrays h ! rules"
    using applyRuleOverridesH_result(3) [OF assms, of campaigns] r by simp
  show "validArray ?h' rules"
    using r ps same applyRuleOverridesH_result(5,6) [OF assms, of campaigns]
    by (auto simp: validArray_def list_all_iff)
  show "readArray ?h' rules = readArray h rules"
    using ps same applyRuleOverridesH_result(4) [OF assms, of campaigns]
    by (simp add: readArray_def)
qed


lemma resolveAndSelect_fst:
  "fst (resolveAndSelect campaigns rules cartItems h) =
     selectBestUpsell campaigns
       (readArray (snd (applyRuleOverridesH rules campaigns h))
          (fst (applyRuleOverridesH rules campaigns h))) cartItems"
  by (simp add: resolveAndSelect_def split_beta)

lemma resolveAndSelect_snd:
  "snd (resolveAndSelect campaigns rules cartItems h) =
     snd (applyRuleOverridesH rules campaigns h)"
  by (simp add: resolveAndSelect_def split_beta)

lemma trackUpsellEvaluation_reads:
  "getActiveRules (trackUpsellEvaluation uuid now sid cartItems best uid st) u =
     getActiveRules st u"
  "getActiveCampaigns (trackUpsellEvaluation uuid now sid cartItems best uid st) u =
     getActiveCampaigns st u"
  by (simp_all add: trackUpsellEvaluation_def getActiveRules_def getActiveCampaigns_def
      split: response.splits)

lemma evaluateUpsells_fst:
  "fst (evaluateUpsells uuid now cartItems sid uid tc st) =
     Inr (selectBestUpsell
       (evaluateCampaigns (getActiveCampaigns st uid) cartItems tc)
       (applyRuleOverrides (evaluateRules (getActiveRules st uid) cartItems tc)
          (evaluateCampaigns (getActiveCampaigns st uid) cartItems tc)) cartItems)"
  by (simp add: evaluateUpsells_def Let_def)

lemma evaluateUpsells_snd:
  "snd (evaluateUpsells uuid now cartItems sid uid tc st) =
     trackUpsellEvaluation uuid now sid cartItems
       (selectBestUpsell
         (evaluateCampaigns (getActiveCampaigns st uid) cartItems tc)
         (applyRuleOverrides (evaluateRules (getActiveRules st uid) cartItems tc)
            (evaluateCampaigns (getActiveCampaigns st uid) cartItems tc)) cartItems) uid st"
  by (simp add: evaluateUpsells_def Let_def)

text \<open>
  Claim C4. For a fixed cart, rule array and campaign list, override application followed
  by selection is a function of its inputs: the offer is the one computed from the values
  of the rules, the input array and every rule object that existed before the call read
  the same afterwards (an \<^verbatim>\<open>enhance\<close> boost lives in a new object held only by the
  working copy), and running the pipeline again on the heap the first run left behind
  yields the identical offer, ties included. Likewise a second \<^verbatim>\<open>evaluateUpsells\<close> on
  the store the first one left behind returns the identical offer.
\<close>

theorem evaluation_repeatable:
  assumes "validArray h rules"
  shows "fst (resolveAndSelect campaigns rules cartItems h) =
           selectBestUpsell campaigns
             (applyRuleOverrides (readArray h rules) campaigns) cartItems \<and>
         readArray (snd (resolveAndSelect campaigns rules cartItems h)) rules =
           readArray h rules \<and>
         (\<forall>p < length (objects h).
            deref (snd (resolveAndSelect campaigns rules cartItems h)) p = deref h p) \<and>
         (\<forall>a < length (arrays h).
            arrays (snd (resolveAndSelect campaigns rules cartItems h)) ! a = arrays h ! a) \<and>
         fst (resolveAndSelect campaigns rules cartItems
               (snd (resolveAndSelect campaigns rules cartItems h))) =
           fst (resolveAndSelect campaigns rules cartItems h) \<and>
         fst (evaluateUpsells uuid' now' cartItems sid uid tc
               (snd (evaluateUpsells uuid now cartItems sid uid tc st))) =
           fst (evaluateUpsells uuid now cartItems sid uid tc st)"
proof -
  let ?h' = "snd (applyRuleOverridesH rules campaigns h)"
  note res = applyRuleOverridesH_result [OF assms, of campaigns]
  note frame = applyRuleOverridesH_frame [OF assms, of campaigns]
  have first: "fst (resolveAndSelect campaigns rules cartItems h) =
      selectBestUpsell campaigns (applyRuleOverrides (readArray h rules) campaigns) cartItems"
    by (simp add: resolveAndSelect_fst res(2))
  have "fst (resolveAndSelect campaigns rules cartItems ?h') =
      selectBestUpsell campaigns (applyRuleOverrides (readArray ?h' rules) campaigns) cartItems"
    by (simp add: resolveAndSelect_fst applyRuleOverridesH_result(2) [OF frame(1)])
  with first frame(2) have again: "fst (resolveAndSelect campaigns rules cartItems ?h') =
      fst (resolveAndSelect campaigns rules cartItems h)" by simp
  have store: "fst (evaluateUpsells uuid' now' cartItems sid uid tc
               (snd (evaluateUpsells uuid now cartItems sid uid tc st))) =
           fst (evaluateUpsells uuid now cartItems sid uid tc st)"
    by (simp add: evaluateUpsells_fst evaluateUpsells_snd trackUpsellEvaluation_reads)
  show ?thesis
    using first frame(2) res(3,4) again store by (simp add: resolveAndSelect_snd)
qed

theorem evaluation_repeatable_witness:
  "map_option offer_id
     (fst (resolveAndSelect
        [sampleCampaign ''c1'' [''P1''] [sampleOverride ''r1'' ''enhance'' (Some 20)] False 60]
        0 [item ''P1'' ''Tea'' 30 2] sampleHeap)) = Some ''r1'' \<and>
   fst (resolveAndSelect
        [sampleCampaign ''c1'' [''P1''] [sampleOverride ''r1'' ''enhance'' (Some 20)] False 60]
        0 [item ''P1'' ''Tea'' 30 2]
        (snd (resolveAndSelect
          [sampleCampaign ''c1'' [''P1''] [sampleOverride ''r1'' ''enhance'' (Some 20)] False 60]
          0 [item ''P1'' ''Tea'' 30 2] sampleHeap))) =
   fst (resolveAndSelect
        [sampleCampaign ''c1'' [''P1''] [sampleOverride ''r1'' ''enhance'' (Some 20)] False 60]
        0 [item ''P1'' ''Tea'' 30 2] sampleHeap) \<and>
   priority (deref (snd (resolveAndSelect
        [sampleCampaign ''c1'' [''P1''] [sampleOverride ''r1'' ''enhance'' (Some 20)] False 60]
        0 [item ''P1'' ''Tea'' 30 2] sampleHeap)) 0) = 50"
proof -
  let ?cs = "[sampleCampaign ''c1'' [''P1''] [sampleOverride ''r1'' ''enhance'' (Some 20)] False 60]"
  let ?cart = "[item ''P1'' ''Tea'' 30 2]"
  have v: "validArray sampleHeap 0"
    by (simp add: validArray_def sampleHeap_def)
  have won: "map_option offer_id (fst (resolveAndSelect ?cs 0 ?cart sampleHeap)) = Some ''r1''"
    by code_simp
  have old: "priority (deref sampleHeap 0) = 50"
    by (simp add: deref_def sampleHeap_def sampleRule_def)
  have len: "0 < length (objects sampleHeap)"
    by (simp add: sampleHeap_def)
  from evaluation_repeatable [OF v, of ?cs ?cart] won old len show ?thesis
    by simp
qed

subsection \<open>Store failures\<close>

text \<open>
  Claim C5, as amended. When the read of active rules (or of active campaigns) fails,
  the reading function returns the empty list, and \<^verbatim>\<open>evaluateUpsells\<close> returns what it
  returns when that table is empty: the offer selected from the other read, and
  \<^verbatim>\<open>null\<close> when both reads fail. It never ends in an error.
\<close>

theorem read_failure_swallowed:
  "(upsell_rules st = Failed e \<longrightarrow>
      getActiveRules st uid = [] \<and>
      fst (evaluateUpsells uuid now cartItems sid uid tc st) =
        fst (evaluateUpsells uuid now cartItems sid uid tc (st\<lparr>upsell_rules := Data []\<rparr>))) \<and>
   (campaigns_table st = Failed e \<longrightarrow>
      getActiveCampaigns st uid = [] \<and>
      fst (evaluateUpsells uuid now cartItems sid uid tc st) =
        fst (evaluateUpsells uuid now cartItems sid uid tc (st\<lparr>campaigns_table := Data []\<rparr>))) \<and>
   (upsell_rules st = Failed e \<and> campaigns_table st = Failed e' \<longrightarrow>
      fst (evaluateUpsells uuid now cartItems sid uid tc st) = Inr None) \<and>
   (\<exists>best. fst (evaluateUpsells uuid now cartItems sid uid tc st) = Inr best)"
  by (simp add: evaluateUpsells_fst getActiveRules_def getActiveCampaigns_def
      evaluateCampaigns_def evaluateRules_def applyRuleOverrides_def selectBestUpsell_def
      bestOffer_def sortOffers_def allOffers_def split: response.splits)

theorem read_failure_swallowed_witness:
  "getActiveRules (sampleStore (Failed ''store unavailable'') (Failed ''store unavailable''))
     ''u1'' = [] \<and>
   fst (evaluateUpsells ''e1'' ''t1'' [item ''P1'' ''Tea'' 30 2] ''s1'' ''u1'' noTime
     (sampleStore (Failed ''store unavailable'') (Failed ''store unavailable''))) = Inr None"
proof -
  let ?st = "sampleStore (Failed ''store unavailable'') (Failed ''store unavailable'')"
  have r: "upsell_rules ?st = Failed ''store unavailable''"
    and c: "campaigns_table ?st = Failed ''store unavailable''"
    by (simp_all add: sampleStore_def)
  from read_failure_swallowed
    [where st = ?st and e = "''store unavailable''" and e' = "''store unavailable''"
       and uid = "''u1''" and uuid = "''e1''" and now = "''t1''" and sid = "''s1''"
       and tc = noTime and cartItems = "[item ''P1'' ''Tea'' 30 2]"]
  show ?thesis using r c by blast
qed

text \<open>
  Claim C5 as stated fails: with the rules unreadable and one matching campaign,
  \<^verbatim>\<open>evaluateUpsells\<close> returns that campaign as the offer instead of an error.
\<close>

theorem read_failure_counterexample:
  "upsell_rules (sampleStore (Failed ''store unavailable'')
      (Data [sampleCampaign ''c1'' [''P1''] [] False 10])) = Failed ''store unavailable'' \<and>
   map_sum id (map_option offer_id)
     (fst (evaluateUpsells ''e1'' ''t1'' [item ''P1'' ''Tea'' 30 2] ''s1'' ''u1'' noTime
        (sampleStore (Failed ''store unavailable'')
           (Data [sampleCampaign ''c1'' [''P1''] [] False 10])))) = Inr (Some ''c1'')"
  by code_simp


end
